theory Spec2Isabelle
  imports Complex_Main "HOL-Library.Word" "HOL-Library.Monad_Syntax"
begin

section \<open>Conventions of the embedding\<close>

text \<open>
  The Go sources compute with \<open>float64\<close>, \<open>int\<close> and \<open>byte\<close>.
  \<^item> \<open>float64\<close> is modelled by \<^typ>\<open>real\<close>: every arithmetic operation is the exact one,
    a decimal literal such as \<open>4.7e-6\<close> is the rational number it denotes.
  \<^item> \<open>int\<close> (64 bit) is modelled by \<^typ>\<open>int\<close> or, for sizes and cursors that start at
    zero and only count upwards, by \<^typ>\<open>nat\<close>; no counter of the program comes near
    \<open>2^63\<close>.
  \<^item> \<open>byte\<close> and \<open>int8\<close> are \<^typ>\<open>8 word\<close>; \<open>byte(v)\<close> of an \<open>int8\<close> keeps the bits.
  \<^item> Indexing a slice out of range panics in Go: every such access of the model is
    guarded and yields \<open>None\<close>.
  \<^item> A \<open>for i := 0; i < n; i++\<close> loop is \<open>for_loop [0..<n]\<close>.
\<close>

type_synonym byte = "8 word"

definition go_int :: "real \<Rightarrow> int" where
  \<comment> \<open>Go's \<open>int(f)\<close> for a float: the fraction is discarded (truncation towards zero).\<close>
  "go_int f = (if 0 \<le> f then \<lfloor>f\<rfloor> else \<lceil>f\<rceil>)"

definition go_int8 :: "(real \<Rightarrow> byte) \<Rightarrow> real \<Rightarrow> byte" where
  \<comment> \<open>Go's \<open>int8(f)\<close>: truncation towards zero when the result fits; otherwise the
      language leaves the result to the implementation, here the parameter \<open>oor\<close>.\<close>
  "go_int8 oor f = (if -129 < f \<and> f < 128 then word_of_int (go_int f) else oor f)"

definition oor_wrap :: "real \<Rightarrow> byte" where
  \<comment> \<open>One admissible implementation of the out-of-range case: keep the low eight bits.\<close>
  "oor_wrap f = word_of_int (go_int f)"

definition go_div :: "int \<Rightarrow> int \<Rightarrow> int" where
  \<comment> \<open>Go's integer \<open>/\<close>: the quotient truncated towards zero (the divisor is never 0 here).\<close>
  "go_div a b = sgn a * sgn b * (\<bar>a\<bar> div \<bar>b\<bar>)"

definition store :: "'a list \<Rightarrow> nat \<Rightarrow> 'a \<Rightarrow> 'a list option" where
  \<comment> \<open>\<open>xs[i] = v\<close>, panicking out of range.\<close>
  "store xs i v = (if i < length xs then Some (xs[i := v]) else None)"


definition go_copy :: "'a list \<Rightarrow> 'a list \<Rightarrow> 'a list" where
  \<comment> \<open>\<open>copy(dst, src)\<close>: the first \<open>min(len(dst), len(src))\<close> elements are overwritten.\<close>
  "go_copy dst src = take (length dst) src @ drop (length src) dst"

definition storei :: "'a list \<Rightarrow> int \<Rightarrow> 'a \<Rightarrow> 'a list option" where
  \<comment> \<open>The same with an \<open>int\<close> index, which may be negative.\<close>
  "storei xs i v = (if 0 \<le> i \<and> i < int (length xs) then Some (xs[nat i := v]) else None)"

definition loadi :: "'a list \<Rightarrow> int \<Rightarrow> 'a option" where
  \<comment> \<open>\<open>xs[i]\<close> as a value, panicking out of range.\<close>
  "loadi xs i = (if 0 \<le> i \<and> i < int (length xs) then Some (xs ! nat i) else None)"

definition make_slice :: "'a \<Rightarrow> int \<Rightarrow> 'a list option" where
  \<comment> \<open>\<open>make([]T, n)\<close>: \<open>n\<close> zero values, panicking for a negative length.\<close>
  "make_slice z n = (if n < 0 then None else Some (replicate (nat n) z))"

definition copy_at :: "'a list \<Rightarrow> int \<Rightarrow> 'a list \<Rightarrow> 'a list option" where
  \<comment> \<open>\<open>copy(dst[offset:], src)\<close>: slicing panics unless \<open>0 \<le> offset \<le> len(dst)\<close>; then
      as many elements as fit are copied.\<close>
  "copy_at dst offset src =
     (if 0 \<le> offset \<and> offset \<le> int (length dst)
      then Some (take (nat offset) dst @ take (length dst - nat offset) src
                 @ drop (nat offset + length src) dst)
      else None)"

fun for_loop :: "nat list \<Rightarrow> (nat \<Rightarrow> 's \<Rightarrow> 's option) \<Rightarrow> 's \<Rightarrow> 's option" where
  "for_loop [] body s = Some s"
| "for_loop (i # rest) body s =
     (case body i s of None \<Rightarrow> None | Some s' \<Rightarrow> for_loop rest body s')"

section \<open>Transmitter: IRE to amplitude, and the TX callback\<close>

definition NTSC_IreToAmplitude :: "real \<Rightarrow> real" where
  "NTSC_IreToAmplitude ire = ((ire - 100.0) / -140.0) * (1.0 - 0.125) + 0.125"


text \<open>
  The callback handed to \<open>StartTX\<close> in \<open>Transmit\<close>. Its state is the buffer \<open>buf\<close> it
  fills and the captured variable \<open>sampleCounter\<close>; \<open>amp\<close> is \<open>v.IreToAmplitude\<close> and
  \<open>frameBuf\<close> is \<open>v.FrameBuffer()\<close>.
\<close>

definition tx_body ::
  "(real \<Rightarrow> byte) \<Rightarrow> (real \<Rightarrow> real) \<Rightarrow> real list \<Rightarrow> nat \<Rightarrow> byte list \<times> nat \<Rightarrow> (byte list \<times> nat) option"
where
  "tx_body oor amp frameBuf i st =
     (case st of (buf, sampleCounter) \<Rightarrow>
        if sampleCounter < length frameBuf then
          (let ire = frameBuf ! sampleCounter;
               amplitude = amp ire;
               iSample = go_int8 oor (amplitude * 127.0);
               qSample = (0 :: byte)
           in case store buf (i * 2) iSample of
                None \<Rightarrow> None
              | Some buf1 \<Rightarrow>
                 (case store buf1 (i * 2 + 1) qSample of
                    None \<Rightarrow> None
                  | Some buf2 \<Rightarrow>
                     Some (buf2, if sampleCounter + 1 \<ge> length frameBuf then 0 else sampleCounter + 1)))
        else None)"

definition tx_callback ::
  "(real \<Rightarrow> byte) \<Rightarrow> (real \<Rightarrow> real) \<Rightarrow> real list \<Rightarrow> byte list \<Rightarrow> nat \<Rightarrow> (byte list \<times> nat) option"
where
  "tx_callback oor amp frameBuf buf sampleCounter =
     (let samplesToWrite = length buf div 2
      in for_loop [0..<samplesToWrite] (tx_body oor amp frameBuf) (buf, sampleCounter))"

text \<open>The encoding the specification describes: round to nearest, then clamp to \<open>int8\<close>.\<close>

definition spec_i8 :: "real \<Rightarrow> int" where
  "spec_i8 a = max (-128) (min 127 (round (a * 127)))"


section \<open>Synthesizer: shared geometry\<close>

definition FrameWidth :: int where "FrameWidth = 540"
definition FrameHeight :: int where "FrameHeight = 480"

section \<open>Synthesizer: PAL\<close>

text \<open>The \<open>PAL\<close> struct without its two mutexes.\<close>

record PAL =
  sampleRate :: real
  frameRate :: real
  linesPerFrame :: int
  activeVideoLines :: int
  lineSamples :: int
  hSyncSamples :: int
  vSyncPulseSamples :: int
  eqPulseSamples :: int
  burstStartSamples :: int
  burstEndSamples :: int
  activeStartSamples :: int
  activeSamples :: int
  fsc :: real
  levelSync :: real
  levelBlanking :: real
  levelBlack :: real
  levelWhite :: real
  burstAmplitude :: real
  rawFrameBuffer :: "byte list"
  palFrameBuffer :: "real list"





section \<open>Synthesizer: NTSC\<close>

text \<open>The \<open>NTSC\<close> struct without its two mutexes.\<close>

record NTSC =
  sampleRate :: real
  frameRate :: real
  linesPerFrame :: int
  activeVideoLines :: int
  lineSamples :: int
  hSyncSamples :: int
  vSyncPulseSamples :: int
  eqPulseSamples :: int
  burstStartSamples :: int
  burstEndSamples :: int
  activeStartSamples :: int
  activeSamples :: int
  fsc :: real
  levelSync :: real
  levelBlanking :: real
  levelBlack :: real
  levelWhite :: real
  burstAmplitude :: real
  rawFrameBuffer :: "byte list"
  ntscFrameBuffer :: "real list"

definition NewNTSC :: "real \<Rightarrow> NTSC option" where
  "NewNTSC sr =
     (let frameRate' = 30000.0 / 1001.0;
          linesPerFrame' = 525;
          lineDuration = 1.0 / (frameRate' * real_of_int linesPerFrame');
          lineSamples' = go_int (lineDuration * sr);
          burstStart = go_int (5.6 / 10 ^ 6 * sr)
      in do {
        raw \<leftarrow> make_slice (0 :: byte) (FrameWidth * FrameHeight * 3);
        frame \<leftarrow> make_slice (0 :: real) (lineSamples' * linesPerFrame');
        Some \<lparr> sampleRate = sr,
               frameRate = frameRate',
               linesPerFrame = linesPerFrame',
               activeVideoLines = 480,
               lineSamples = lineSamples',
               hSyncSamples = go_int (4.7 / 10 ^ 6 * sr),
               vSyncPulseSamples = go_int (27.1 / 10 ^ 6 * sr),
               eqPulseSamples = go_int (2.3 / 10 ^ 6 * sr),
               burstStartSamples = burstStart,
               burstEndSamples = burstStart + go_int (2.5 / 10 ^ 6 * sr),
               activeStartSamples = go_int (10.7 / 10 ^ 6 * sr),
               activeSamples = go_int (52.6 / 10 ^ 6 * sr),
               fsc = 3579545.4545,
               levelSync = - 40.0,
               levelBlanking = 0.0,
               levelBlack = 7.5,
               levelWhite = 100.0,
               burstAmplitude = 20.0,
               rawFrameBuffer = raw,
               ntscFrameBuffer = frame \<rparr>
      })"

text \<open>
  \<open>getPixelYIQ\<close>. The quotient by \<open>activeSamples\<close> is a float division; for
  \<open>activeSamples = 0\<close> Go yields an infinity or a NaN whose conversion to \<open>int\<close> is
  left to the implementation, so the model stops there with \<open>None\<close> (no caller reaches
  that case: both call the function inside a loop over the active samples).
\<close>

definition NTSC_getPixelYIQ :: "NTSC \<Rightarrow> int \<Rightarrow> int \<Rightarrow> (real \<times> real \<times> real) option" where
  "NTSC_getPixelYIQ n currentLine sampleInLine =
     (let videoLine =
            (if currentLine \<ge> 22 \<and> currentLine \<le> 263 then (currentLine - 22) * 2
             else if currentLine \<ge> 285 \<and> currentLine \<le> 525 then (currentLine - 285) * 2 + 1
             else 0);
          sampleInActiveVideo = sampleInLine - activeStartSamples n
      in if activeSamples n = 0 then None
         else
          (let pixelX = go_int (real_of_int sampleInActiveVideo / real_of_int (activeSamples n)
                                  * real_of_int FrameWidth)
           in if videoLine < 0 \<or> videoLine \<ge> FrameHeight \<or> pixelX < 0 \<or> pixelX \<ge> FrameWidth
              then Some (levelBlack n, 0, 0)
              else
               (let pixelIndex = (videoLine * FrameWidth + pixelX) * 3
                in do {
                  rb \<leftarrow> loadi (rawFrameBuffer n) pixelIndex;
                  gb \<leftarrow> loadi (rawFrameBuffer n) (pixelIndex + 1);
                  bb \<leftarrow> loadi (rawFrameBuffer n) (pixelIndex + 2);
                  let r = real_of_int (uint rb);
                      g = real_of_int (uint gb);
                      b = real_of_int (uint bb);
                      yVal = 0.299 * r + 0.587 * g + 0.114 * b;
                      iVal = 0.596 * r - 0.274 * g - 0.322 * b;
                      qVal = 0.211 * r - 0.523 * g + 0.312 * b
                  in Some (levelBlack n + yVal / 255.0 * (levelWhite n - levelBlack n),
                           iVal / 255.0 * (levelWhite n - levelBlack n),
                           qVal / 255.0 * (levelWhite n - levelBlack n))
                })))"

definition sync_pair :: "real \<Rightarrow> int \<Rightarrow> nat \<Rightarrow> real list \<Rightarrow> real list option" where
  \<comment> \<open>\<open>lineBuffer[s], lineBuffer[halfLine+s] = levelSync, levelSync\<close>\<close>
  "sync_pair lv halfLine s lineBuffer =
     do { lb \<leftarrow> storei lineBuffer (int s) lv; storei lb (halfLine + int s) lv }"

definition NTSC_luma_body :: "NTSC \<Rightarrow> int \<Rightarrow> nat \<Rightarrow> real list \<Rightarrow> real list option" where
  "NTSC_luma_body n currentLine s lineBuffer =
     do { (y, i, q) \<leftarrow> NTSC_getPixelYIQ n currentLine (activeStartSamples n + int s);
          storei lineBuffer (activeStartSamples n + int s) y }"

definition NTSC_generateLumaLine :: "NTSC \<Rightarrow> int \<Rightarrow> real list option" where
  "NTSC_generateLumaLine n currentLine =
     do {
       lb0 \<leftarrow> make_slice (0 :: real) (lineSamples n);
       lb1 \<leftarrow> for_loop [0..<nat (lineSamples n)]
                (\<lambda>s lb. storei lb (int s) (levelBlanking n)) lb0;
       let lineInField =
             (if currentLine > go_div (linesPerFrame n) 2
              then currentLine - go_div (linesPerFrame n) 2 else currentLine);
           isVBI = (lineInField \<le> 21);
           halfLine = go_div (lineSamples n) 2
       in if (lineInField \<ge> 1 \<and> lineInField \<le> 3) \<or> (lineInField \<ge> 7 \<and> lineInField \<le> 9)
          then for_loop [0..<nat (eqPulseSamples n)] (sync_pair (levelSync n) halfLine) lb1
          else if lineInField \<ge> 4 \<and> lineInField \<le> 6
          then for_loop [0..<nat (vSyncPulseSamples n)] (sync_pair (levelSync n) halfLine) lb1
          else do {
            lb2 \<leftarrow> for_loop [0..<nat (hSyncSamples n)]
                     (\<lambda>s lb. storei lb (int s) (levelSync n)) lb1;
            if \<not> isVBI
            then for_loop [0..<nat (activeSamples n)] (NTSC_luma_body n currentLine) lb2
            else Some lb2
          }
     }"

text \<open>
  The loop over the samples of one line in \<open>GenerateFullFrame\<close>; its state is the line
  buffer and \<open>subcarrierPhase\<close>.
\<close>

definition NTSC_chroma_body ::
  "NTSC \<Rightarrow> int \<Rightarrow> real \<Rightarrow> nat \<Rightarrow> real list \<times> real \<Rightarrow> (real list \<times> real) option"
where
  "NTSC_chroma_body n line phaseIncrement s st =
     (case st of (lineBuffer, subcarrierPhase) \<Rightarrow>
        do {
          lb \<leftarrow>
            (if int s \<ge> burstStartSamples n \<and> int s < burstEndSamples n
             then do {
               old \<leftarrow> loadi lineBuffer (int s);
               storei lineBuffer (int s) (old + burstAmplitude n * sin (subcarrierPhase + pi))
             }
             else if int s \<ge> activeStartSamples n
                     \<and> int s < activeStartSamples n + activeSamples n
             then do {
               (y, i, q) \<leftarrow> NTSC_getPixelYIQ n line (int s);
               old \<leftarrow> loadi lineBuffer (int s);
               storei lineBuffer (int s) (old + (i * cos subcarrierPhase + q * sin subcarrierPhase))
             }
             else Some lineBuffer);
          Some (lb, subcarrierPhase + phaseIncrement)
        })"

definition NTSC_line_body ::
  "NTSC \<Rightarrow> real \<Rightarrow> nat \<Rightarrow> real \<times> real list \<Rightarrow> (real \<times> real list) option"
where
  "NTSC_line_body n phaseIncrement lnum st =
     (case st of (subcarrierPhase, frame) \<Rightarrow>
        (let line = int lnum in
         do {
           lineBuffer \<leftarrow> NTSC_generateLumaLine n line;
           let isVBI = ((line \<ge> 1 \<and> line \<le> 21) \<or> (line \<ge> 264 \<and> line \<le> 284));
           (lb, phase) \<leftarrow>
             (if \<not> isVBI
              then for_loop [0..<nat (lineSamples n)] (NTSC_chroma_body n line phaseIncrement)
                     (lineBuffer, subcarrierPhase)
              else Some (lineBuffer, subcarrierPhase + phaseIncrement * real_of_int (lineSamples n)));
           let offset = (line - 1) * lineSamples n;
           frame' \<leftarrow> copy_at frame offset lb;
           Some (phase, frame')
         }))"

definition NTSC_GenerateFullFrame :: "NTSC \<Rightarrow> NTSC option" where
  "NTSC_GenerateFullFrame n =
     (let subcarrierPhase = 0.0;
          phaseIncrement = 2.0 * pi * fsc n / sampleRate n
      in do {
        (phase, frame) \<leftarrow>
          for_loop [1..<nat (linesPerFrame n) + 1] (NTSC_line_body n phaseIncrement)
            (subcarrierPhase, ntscFrameBuffer n);
        Some (n\<lparr>ntscFrameBuffer := frame\<rparr>)
      })"

text \<open>The geometry that \<open>NewNTSC\<close> establishes (for a sample rate \<open>\<ge> 0\<close>) and on which
  the proofs about the NTSC synthesizer rest; the RGB frame is left open.\<close>

definition NTSC_ok :: "NTSC \<Rightarrow> bool" where
  "NTSC_ok n \<longleftrightarrow>
     levelSync n = - 40 \<and> levelBlanking n = 0 \<and> levelBlack n = 7.5 \<and> levelWhite n = 100 \<and>
     burstAmplitude n = 20 \<and> linesPerFrame n = 525 \<and>
     length (rawFrameBuffer n) = 777600 \<and>
     length (ntscFrameBuffer n) = nat (lineSamples n) * 525 \<and>
     0 \<le> lineSamples n \<and> 0 \<le> hSyncSamples n \<and> hSyncSamples n \<le> lineSamples n \<and>
     go_div (lineSamples n) 2 + eqPulseSamples n \<le> lineSamples n \<and>
     go_div (lineSamples n) 2 + vSyncPulseSamples n \<le> lineSamples n \<and>
     0 \<le> activeStartSamples n \<and>
     activeStartSamples n + activeSamples n \<le> lineSamples n \<and>
     burstEndSamples n \<le> activeStartSamples n"

section \<open>Receiver: the decoder\<close>

text \<open>
  Constants of package \<open>config\<close> of the receiver. Its \<open>FrameWidth\<close> and \<open>FrameHeight\<close>
  are 540 and 480 as in the transmitter, so the two constants above serve both.
\<close>

definition FrameRate :: real where "FrameRate = 30000.0 / 1001.0"
definition LinesPerFrame :: int where "LinesPerFrame = 525"
definition HsyncDurationMicroseconds :: real where "HsyncDurationMicroseconds = 4.7"
definition FrontPorchMicroseconds :: real where "FrontPorchMicroseconds = 1.5"
definition ActiveVideoMicroseconds :: real where "ActiveVideoMicroseconds = 52.6"

datatype VSyncState = StateSearchVSync | StateInVSync

text \<open>
  The \<open>Decoder\<close> struct without its mutex. The fields \<open>x\<close> and \<open>y\<close> of the source are
  \<open>d_x\<close> and \<open>d_y\<close> here, so that \<open>x\<close> and \<open>y\<close> stay free for variables.
\<close>

record Decoder =
  frameBuffer :: "byte list"
  displayBuffer :: "byte list"
  d_x :: int
  d_y :: int
  pixelCounter :: int
  smoothedMax :: real
  smoothedMin :: real
  hSyncPulseWidth :: int
  syncSearchWindow :: int
  lineStartActiveVideo :: int
  lineEndActiveVideo :: int
  sampleRate :: real
  initialSamplesPerLine :: real
  samplesPerLine :: real
  hSyncErrorAccumulator :: real
  vSyncState :: VSyncState
  vSyncSerrationCounter :: int

definition New :: "real \<Rightarrow> Decoder" where
  "New sr =
     (let lineDuration = 1.0 / (FrameRate * real_of_int LinesPerFrame);
          initial = lineDuration * sr;
          hSync = go_int (HsyncDurationMicroseconds * (1 / 10 ^ 6) * sr);
          activeVideoStartUs = HsyncDurationMicroseconds + FrontPorchMicroseconds;
          lineStart = go_int (activeVideoStartUs * (1 / 10 ^ 6) * sr)
      in \<lparr> frameBuffer = replicate (nat (FrameWidth * FrameHeight * 3)) 0,
           displayBuffer = replicate (nat (FrameWidth * FrameHeight * 3)) 0,
           d_x = 0,
           d_y = 0,
           pixelCounter = 0,
           smoothedMax = 128.0,
           smoothedMin = 0.0,
           hSyncPulseWidth = hSync,
           syncSearchWindow = go_int (initial * 0.20),
           lineStartActiveVideo = lineStart,
           lineEndActiveVideo =
             lineStart + go_int (ActiveVideoMicroseconds * (1 / 10 ^ 6) * sr),
           sampleRate = sr,
           initialSamplesPerLine = initial,
           samplesPerLine = initial,
           hSyncErrorAccumulator = 0.0,
           vSyncState = StateSearchVSync,
           vSyncSerrationCounter = 0 \<rparr>)"


text \<open>
  The handling of a committed sync pulse: the V-sync state machine and the H-sync PLL
  (the \<open>switch\<close> inside the second loop of \<open>ProcessIQ\<close>).
\<close>

definition sync_pulse :: "Decoder \<Rightarrow> Decoder" where
  "sync_pulse d =
     (let isLongPulse = (pixelCounter d > hSyncPulseWidth d * 2)
      in case vSyncState d of
           StateSearchVSync \<Rightarrow>
             if d_y d > FrameHeight - 20 \<and> isLongPulse
             then d\<lparr>vSyncState := StateInVSync, vSyncSerrationCounter := 1\<rparr>
             else
              (let error = real_of_int (d_x d) - samplesPerLine d;
                   Kp = 0.002;
                   Ki = 0.0001;
                   acc = hSyncErrorAccumulator d + error * Ki;
                   correction = (error * Kp) + acc;
                   spl = samplesPerLine d + correction;
                   spl1 = (if spl < initialSamplesPerLine d * 0.95
                           then initialSamplesPerLine d * 0.95 else spl);
                   spl2 = (if spl1 > initialSamplesPerLine d * 1.05
                           then initialSamplesPerLine d * 1.05 else spl1)
               in d\<lparr>hSyncErrorAccumulator := acc, samplesPerLine := spl2,
                     d_y := d_y d + 1, d_x := 0\<rparr>)
         | StateInVSync \<Rightarrow>
             if isLongPulse \<and> vSyncSerrationCounter d < 6
             then d\<lparr>vSyncSerrationCounter := vSyncSerrationCounter d + 1\<rparr>
             else
              (let d1 = (if vSyncSerrationCounter d \<ge> 3
                         then d\<lparr>d_y := 0, d_x := 0,
                                samplesPerLine := initialSamplesPerLine d,
                                hSyncErrorAccumulator := 0.0\<rparr>
                         else d)
               in d1\<lparr>vSyncState := StateSearchVSync, vSyncSerrationCounter := 0\<rparr>))"

text \<open>
  Video drawing. \<open>levelCoeff\<close> is \<open>255.0 / (blackLevel - peakWhiteLevel + 1e-6)\<close>; when
  the divisor is 0 the float quotient is \<open>+Inf\<close>, written \<open>None\<close> here, and the product
  with \<open>blackLevel - mag\<close> is \<open>+Inf\<close>, \<open>-Inf\<close> or NaN. The clamps turn the infinities into
  255 and 0; a NaN passes both clamps and its conversion to \<open>byte\<close> is left to the
  implementation (the parameter \<open>nanb\<close>).
\<close>

definition pixel_value :: "byte \<Rightarrow> real \<Rightarrow> real option \<Rightarrow> real \<Rightarrow> byte" where
  "pixel_value nanb blackLevel levelCoeff mag =
     (case levelCoeff of
        None \<Rightarrow> (if blackLevel - mag > 0 then 255 else if blackLevel - mag < 0 then 0 else nanb)
      | Some c \<Rightarrow>
         (let brightness = (blackLevel - mag) * c;
              b1 = (if brightness < 0 then 0 else brightness);
              b2 = (if b1 > 255 then 255 else b1)
          in word_of_int (go_int b2)))"

text \<open>The pixel a sample is drawn to, if the guards of the drawing code let it through.\<close>

definition pixel_index :: "Decoder \<Rightarrow> int option" where
  "pixel_index d =
     (if d_y d \<ge> 0 \<and> d_y d < FrameHeight
         \<and> d_x d \<ge> lineStartActiveVideo d \<and> d_x d < lineEndActiveVideo d
      then
       (let samplesInActiveVideo = real_of_int (lineEndActiveVideo d - lineStartActiveVideo d);
            relativeSample = real_of_int (d_x d - lineStartActiveVideo d);
            pixelX = go_int (relativeSample / samplesInActiveVideo * real_of_int FrameWidth)
        in if pixelX \<ge> 0 \<and> pixelX < FrameWidth
           then Some ((d_y d * FrameWidth + pixelX) * 3)
           else None)
      else None)"

definition draw :: "byte \<Rightarrow> real \<Rightarrow> real option \<Rightarrow> real \<Rightarrow> Decoder \<Rightarrow> Decoder option" where
  "draw nanb blackLevel levelCoeff mag d =
     (case pixel_index d of
        None \<Rightarrow> Some d
      | Some pixelIndex \<Rightarrow>
         (let pixelValue = pixel_value nanb blackLevel levelCoeff mag
          in do {
            fb1 \<leftarrow> storei (frameBuffer d) pixelIndex pixelValue;
            fb2 \<leftarrow> storei fb1 (pixelIndex + 1) pixelValue;
            fb3 \<leftarrow> storei fb2 (pixelIndex + 2) pixelValue;
            Some (d\<lparr>frameBuffer := fb3\<rparr>)
          }))"

text \<open>The rest of the loop body after sync detection: drawing, \<open>d.x++\<close>, flywheel and
  frame completion.\<close>

definition video_and_flywheel ::
  "byte \<Rightarrow> real \<Rightarrow> real option \<Rightarrow> real \<Rightarrow> Decoder \<Rightarrow> Decoder option"
where
  "video_and_flywheel nanb blackLevel levelCoeff mag d =
     do {
       d1 \<leftarrow> draw nanb blackLevel levelCoeff mag d;
       let d2 = d1\<lparr>d_x := d_x d1 + 1\<rparr>;
           d3 = (if d_x d2 \<ge> go_int (samplesPerLine d2)
                 then d2\<lparr>d_x := 0, d_y := d_y d2 + 1\<rparr> else d2);
           d4 = (if d_y d3 \<ge> FrameHeight
                 then d3\<lparr>d_y := 0, displayBuffer := go_copy (displayBuffer d3) (frameBuffer d3)\<rparr>
                 else d3)
       in Some d4
     }"

text \<open>One iteration of the second loop of \<open>ProcessIQ\<close>; the \<open>continue\<close> after a
  committed pulse is the branch that returns without drawing.\<close>

definition sample_step ::
  "byte \<Rightarrow> real \<Rightarrow> real \<Rightarrow> real option \<Rightarrow> real \<Rightarrow> Decoder \<Rightarrow> Decoder option"
where
  "sample_step nanb syncThreshold blackLevel levelCoeff mag d =
     (if d_x d < syncSearchWindow d
      then
       (if mag \<ge> syncThreshold
        then video_and_flywheel nanb blackLevel levelCoeff mag
               (d\<lparr>pixelCounter := pixelCounter d + 1\<rparr>)
        else if pixelCounter d > go_div (hSyncPulseWidth d) 2
        then Some ((sync_pulse d)\<lparr>pixelCounter := 0\<rparr>)
        else video_and_flywheel nanb blackLevel levelCoeff mag (d\<lparr>pixelCounter := 0\<rparr>))
      else video_and_flywheel nanb blackLevel levelCoeff mag d)"





text \<open>
  Observers used to state the claims (they are not part of the program): whether a
  loop iteration commits a sync pulse, the rows of the pixels that a run over a list of
  magnitudes writes, in order, and the grayscale property of an RGB buffer.
\<close>

definition commits :: "real \<Rightarrow> real \<Rightarrow> Decoder \<Rightarrow> bool" where
  "commits syncThreshold mag d \<longleftrightarrow>
     d_x d < syncSearchWindow d \<and> \<not> mag \<ge> syncThreshold
       \<and> pixelCounter d > go_div (hSyncPulseWidth d) 2"







section \<open>Generic facts about loops\<close>

lemma for_loop_append:
  "for_loop (xs @ ys) body s =
     (case for_loop xs body s of None \<Rightarrow> None | Some s' \<Rightarrow> for_loop ys body s')"
  by (induction xs arbitrary: s) (auto split: option.splits)

lemma for_loop_snoc:
  "for_loop [0..<Suc n] body s =
     (case for_loop [0..<n] body s of None \<Rightarrow> None | Some s' \<Rightarrow> body n s')"
  by (simp add: for_loop_append split: option.splits)

lemma for_loop_invariant:
  assumes init: "I a s"
    and step: "\<And>i t. a \<le> i \<Longrightarrow> i < b \<Longrightarrow> I i t \<Longrightarrow> \<exists>t'. body i t = Some t' \<and> I (Suc i) t'"
    and le: "a \<le> b"
  shows "\<exists>s'. for_loop [a..<b] body s = Some s' \<and> I b s'"
  using le step
proof (induction b)
  case 0
  then show ?case using init by simp
next
  case (Suc b)
  show ?case
  proof (cases "a = Suc b")
    case True
    then show ?thesis using init by simp
  next
    case False
    with Suc.prems have ab: "a \<le> b" by simp
    have "\<exists>s'. for_loop [a..<b] body s = Some s' \<and> I b s'"
      by (rule Suc.IH [OF ab]) (use Suc.prems in auto)
    then obtain s1 where s1: "for_loop [a..<b] body s = Some s1" "I b s1" by blast
    from Suc.prems(2) [OF ab _ s1(2)] obtain s2 where "body b s1 = Some s2" "I (Suc b) s2"
      by auto
    then show ?thesis
      using ab s1 by (simp add: for_loop_append)
  qed
qed

lemma fill_loop:
  assumes "a \<le> b" "b \<le> length lb"
  shows "\<exists>lb'. for_loop [a..<b] (\<lambda>s l. storei l (int s) v) lb = Some lb' \<and>
           length lb' = length lb \<and>
           (\<forall>j<length lb. lb' ! j = (if a \<le> j \<and> j < b then v else lb ! j))"
proof -
  let ?I = "\<lambda>i l. length l = length lb \<and>
              (\<forall>j<length lb. l ! j = (if a \<le> j \<and> j < i then v else lb ! j))"
  have "\<exists>s'. for_loop [a..<b] (\<lambda>s l. storei l (int s) v) lb = Some s' \<and> ?I b s'"
  proof (rule for_loop_invariant [where I = ?I])
    show "?I a lb" by auto
    show "a \<le> b" by fact
    fix i t assume "a \<le> i" "i < b" "?I i t"
    then show "\<exists>t'. storei t (int i) v = Some t' \<and> ?I (Suc i) t'"
      using assms(2) by (auto simp: storei_def nth_list_update less_Suc_eq)
  qed
  then show ?thesis by blast
qed

lemma sync_pair_loop:
  assumes "0 \<le> half" "nat half + cnt \<le> length lb"
  shows "\<exists>lb'. for_loop [0..<cnt] (sync_pair v half) lb = Some lb' \<and>
           length lb' = length lb \<and>
           (\<forall>j<length lb. lb' ! j =
               (if j < cnt \<or> (nat half \<le> j \<and> j < nat half + cnt) then v else lb ! j))"
proof -
  let ?I = "\<lambda>i l. length l = length lb \<and>
              (\<forall>j<length lb. l ! j =
                 (if j < i \<or> (nat half \<le> j \<and> j < nat half + i) then v else lb ! j))"
  have "\<exists>s'. for_loop [0..<cnt] (sync_pair v half) lb = Some s' \<and> ?I cnt s'"
  proof (rule for_loop_invariant [where I = ?I])
    show "?I 0 lb" by simp
    show "0 \<le> cnt" by simp
    fix i t assume a: "0 \<le> i" "i < cnt" "?I i t"
    then have "sync_pair v half i t = Some (t[i := v, nat half + i := v])"
      using assms by (simp add: sync_pair_def storei_def nat_add_distrib)
    moreover have "?I (Suc i) (t[i := v, nat half + i := v])"
      using a assms by (auto simp: nth_list_update less_Suc_eq)
    ultimately show "\<exists>t'. sync_pair v half i t = Some t' \<and> ?I (Suc i) t'" by blast
  qed
  then show ?thesis by blast
qed

lemma go_div_nonneg: "0 \<le> a \<Longrightarrow> 0 < b \<Longrightarrow> go_div a b = a div b"
  by (simp add: go_div_def sgn_if)

lemma blank_line:
  "for_loop [0..<n] (\<lambda>s lb. storei lb (int s) v) (replicate n z) = Some (replicate n v)"
proof -
  from fill_loop [of 0 n "replicate n z" v]
  obtain lb' where l: "for_loop [0..<n] (\<lambda>s l. storei l (int s) v) (replicate n z) = Some lb'"
    "length lb' = n" "\<forall>j<n. lb' ! j = v"
    by auto
  have "lb' = replicate n v"
    using l(2,3) by (auto simp: list_eq_iff_nth_eq)
  then show ?thesis
    using l(1) by simp
qed

lemma go_int_nonneg: "0 \<le> f \<Longrightarrow> go_int f = \<lfloor>f\<rfloor>"
  by (simp add: go_int_def)

lemma go_int_mono_nonneg: "0 \<le> a \<Longrightarrow> a \<le> b \<Longrightarrow> go_int a \<le> go_int b"
  by (simp add: go_int_def floor_mono)

lemma go_int_add_le: "0 \<le> a \<Longrightarrow> 0 \<le> b \<Longrightarrow> a + b \<le> c \<Longrightarrow> go_int a + go_int b \<le> go_int c"
proof -
  assume h: "0 \<le> a" "0 \<le> b" "a + b \<le> c"
  have "\<lfloor>a\<rfloor> + \<lfloor>b\<rfloor> \<le> \<lfloor>a + b\<rfloor>" by (rule le_floor_add)
  also have "\<dots> \<le> \<lfloor>c\<rfloor>" using h(3) by (rule floor_mono)
  finally show ?thesis using h by (simp add: go_int_def)
qed


lemma byte_real_nonneg: "0 \<le> (unsigned (a :: byte) :: real)"
proof -
  have "0 \<le> uint a" by simp
  then have "0 \<le> real_of_int (uint a)" by (simp only: of_int_0_le_iff)
  then show ?thesis by simp
qed

lemma byte_real_le: "(unsigned (a :: byte) :: real) \<le> 255"
proof -
  have "uint a < 2 ^ LENGTH(8)" by (rule uint_bounded)
  then have "uint a \<le> 255" by simp
  then have "real_of_int (uint a) \<le> real_of_int 255" by (simp only: of_int_le_iff)
  then show ?thesis by simp
qed

section \<open>The amplitude map\<close>



section \<open>The TX callback\<close>

lemma tx_body_Some:
  assumes "sc < length frameBuf" "2 * i + 1 < length buf"
  shows "tx_body oor amp frameBuf i (buf, sc) =
    Some (buf[2 * i := go_int8 oor (amp (frameBuf ! sc) * 127), 2 * i + 1 := 0],
          (sc + 1) mod length frameBuf)"
proof -
  have m: "(if length frameBuf \<le> sc + 1 then 0 else sc + 1) = (sc + 1) mod length frameBuf"
    using assms(1) by (auto simp: le_Suc_eq mod_Suc)
  show ?thesis
    using assms m by (simp add: tx_body_def store_def Let_def mult.commute)
qed

lemma tx_loop_invariant:
  assumes "sc < length frameBuf" "2 * n \<le> length buf"
  shows "\<exists>buf'. for_loop [0..<n] (tx_body oor amp frameBuf) (buf, sc)
            = Some (buf', (sc + n) mod length frameBuf) \<and>
          length buf' = length buf \<and>
          (\<forall>i<n. buf' ! (2 * i) = go_int8 oor (amp (frameBuf ! ((sc + i) mod length frameBuf)) * 127) \<and>
                  buf' ! (2 * i + 1) = 0) \<and>
          (\<forall>j\<ge>2 * n. buf' ! j = buf ! j)"
  using assms
proof (induction n)
  case 0
  then show ?case by simp
next
  case (Suc n)
  then obtain buf' where
    run: "for_loop [0..<n] (tx_body oor amp frameBuf) (buf, sc) = Some (buf', (sc + n) mod length frameBuf)"
    and len: "length buf' = length buf"
    and filled: "\<forall>i<n. buf' ! (2 * i) = go_int8 oor (amp (frameBuf ! ((sc + i) mod length frameBuf)) * 127) \<and>
                  buf' ! (2 * i + 1) = 0"
    and rest: "\<forall>j\<ge>2 * n. buf' ! j = buf ! j"
    by auto
  have cur: "(sc + n) mod length frameBuf < length frameBuf"
    using Suc.prems(1) by (intro mod_less_divisor) auto
  have inb: "2 * n + 1 < length buf'"
    using Suc.prems(2) len by simp
  let ?b = "buf'[2 * n := go_int8 oor (amp (frameBuf ! ((sc + n) mod length frameBuf)) * 127), 2 * n + 1 := 0]"
  have step: "for_loop [0..<Suc n] (tx_body oor amp frameBuf) (buf, sc)
      = Some (?b, (sc + Suc n) mod length frameBuf)"
    unfolding for_loop_snoc run
    by (simp add: tx_body_Some [OF cur inb] mod_Suc_eq)
  have "\<forall>i<Suc n. ?b ! (2 * i) = go_int8 oor (amp (frameBuf ! ((sc + i) mod length frameBuf)) * 127) \<and>
                  ?b ! (2 * i + 1) = 0"
    using filled inb by (auto simp: less_Suc_eq nth_list_update)
  moreover have "\<forall>j\<ge>2 * Suc n. ?b ! j = buf ! j"
    using rest by (auto simp: nth_list_update)
  ultimately show ?case
    using step len by auto
qed

lemma go_int8_sint:
  assumes "-129 < f" "f < 128"
  shows "sint (go_int8 oor f) = go_int f"
proof -
  have "-128 \<le> go_int f \<and> go_int f \<le> 127"
    using assms by (auto simp: go_int_def floor_le_iff le_floor_iff ceiling_le_iff le_ceiling_iff)
  then show ?thesis
    using assms by (simp add: go_int8_def sint_sbintrunc' signed_take_bit_int_eq_self)
qed

text \<open>
  Claim C1, as amended. For a callback buffer \<open>buf\<close> and a cursor inside the composite
  frame, the callback returns normally, advances the cursor by \<open>N = length buf div 2\<close>
  modulo the frame length, and for every \<open>i < N\<close> the I byte \<open>buf[2i]\<close> is Go's
  \<open>int8(amp(ire) * 127)\<close> for \<open>ire = composite[cursor]\<close>: the product with its fraction
  discarded (truncated towards zero, not rounded) whenever that fits a signed byte, with
  no clamping written in the code; the Q byte \<open>buf[2i+1]\<close> is 0. White (amp 0.125)
  encodes to 15, blanking (amp 0.75) to 95 and sync tip (amp 1.0) to 127.
\<close>

theorem tx_callback_encoding:
  assumes "sampleCounter < length frameBuf"
  shows "(\<exists>buf'. tx_callback oor amp frameBuf buf sampleCounter
            = Some (buf', (sampleCounter + length buf div 2) mod length frameBuf) \<and>
          length buf' = length buf \<and>
          (\<forall>i < length buf div 2.
             buf' ! (2 * i) =
               go_int8 oor (amp (frameBuf ! ((sampleCounter + i) mod length frameBuf)) * 127) \<and>
             (- 129 < amp (frameBuf ! ((sampleCounter + i) mod length frameBuf)) * 127 \<and>
              amp (frameBuf ! ((sampleCounter + i) mod length frameBuf)) * 127 < 128 \<longrightarrow>
                sint (buf' ! (2 * i)) =
                  go_int (amp (frameBuf ! ((sampleCounter + i) mod length frameBuf)) * 127)) \<and>
             buf' ! (2 * i + 1) = 0)) \<and>
         go_int8 oor (NTSC_IreToAmplitude 100 * 127) = 15 \<and>
         go_int8 oor (NTSC_IreToAmplitude 0 * 127) = 95 \<and>
         go_int8 oor (NTSC_IreToAmplitude (- 40) * 127) = 127"
proof -
  have "2 * (length buf div 2) \<le> length buf" by simp
  from tx_loop_invariant [OF assms this, of oor amp]
  obtain buf' where
    run: "for_loop [0..<length buf div 2] (tx_body oor amp frameBuf) (buf, sampleCounter)
            = Some (buf', (sampleCounter + length buf div 2) mod length frameBuf)"
    and len: "length buf' = length buf"
    and filled: "\<forall>i<length buf div 2.
        buf' ! (2 * i) = go_int8 oor (amp (frameBuf ! ((sampleCounter + i) mod length frameBuf)) * 127) \<and>
        buf' ! (2 * i + 1) = 0"
    by blast
  have call: "tx_callback oor amp frameBuf buf sampleCounter
            = Some (buf', (sampleCounter + length buf div 2) mod length frameBuf)"
    using run by (simp add: tx_callback_def)
  have levels: "go_int8 oor (NTSC_IreToAmplitude 100 * 127) = 15"
    "go_int8 oor (NTSC_IreToAmplitude 0 * 127) = 95"
    "go_int8 oor (NTSC_IreToAmplitude (- 40) * 127) = 127"
    by (simp_all add: NTSC_IreToAmplitude_def go_int_def go_int8_def)
  show ?thesis
    using call len filled levels by (auto simp: go_int8_sint)
qed

theorem tx_callback_encoding_witness:
  "0 < length [100, 0, - 40 :: real] \<and>
   (\<exists>buf'. tx_callback oor_wrap NTSC_IreToAmplitude [100, 0, - 40] [9, 9, 9, 9] 0 = Some (buf', 2) \<and>
      buf' ! 0 = 15 \<and> sint (buf' ! 0) = 15 \<and> buf' ! 1 = 0 \<and> buf' ! 2 = 95 \<and> buf' ! 3 = 0)"
proof -
  let ?fb = "[100, 0, - 40 :: real]"
  let ?buf = "[9, 9, 9, 9 :: byte]"
  let ?a = "\<lambda>i. NTSC_IreToAmplitude (?fb ! ((0 + i) mod length ?fb)) * 127"
  have h: "0 < length ?fb" by simp
  from tx_callback_encoding [OF h, of oor_wrap NTSC_IreToAmplitude ?buf]
  obtain buf' where
    call: "tx_callback oor_wrap NTSC_IreToAmplitude ?fb ?buf 0
             = Some (buf', (0 + length ?buf div 2) mod length ?fb)"
    and bytes: "\<forall>i < length ?buf div 2.
        buf' ! (2 * i) = go_int8 oor_wrap (?a i) \<and>
        (- 129 < ?a i \<and> ?a i < 128 \<longrightarrow> sint (buf' ! (2 * i)) = go_int (?a i)) \<and>
        buf' ! (2 * i + 1) = 0"
    by blast
  have i0: "(0::nat) < length ?buf div 2" and i1: "(1::nat) < length ?buf div 2"
    by simp_all
  have a0: "?a 0 = 15.875" and a1: "?a 1 = 95.25"
    by (simp_all add: NTSC_IreToAmplitude_def)
  from bytes i0 have
    "buf' ! (2 * 0) = go_int8 oor_wrap (?a 0) \<and>
     (- 129 < ?a 0 \<and> ?a 0 < 128 \<longrightarrow> sint (buf' ! (2 * 0)) = go_int (?a 0)) \<and>
     buf' ! (2 * 0 + 1) = 0"
    by blast
  then have r0: "buf' ! 0 = 15 \<and> sint (buf' ! 0) = 15 \<and> buf' ! 1 = 0"
    unfolding a0 by (simp add: go_int_def go_int8_def)
  from bytes i1 have
    "buf' ! (2 * 1) = go_int8 oor_wrap (?a 1) \<and>
     (- 129 < ?a 1 \<and> ?a 1 < 128 \<longrightarrow> sint (buf' ! (2 * 1)) = go_int (?a 1)) \<and>
     buf' ! (2 * 1 + 1) = 0"
    by blast
  then have r1: "buf' ! 2 = 95 \<and> buf' ! 3 = 0"
    unfolding a1 by (simp add: go_int_def go_int8_def)
  from call have "tx_callback oor_wrap NTSC_IreToAmplitude ?fb ?buf 0 = Some (buf', 2)"
    by simp
  with h r0 r1 show ?thesis by blast
qed

text \<open>
  Claim C1 as stated fails: on a frame holding the white level the code writes the I
  byte 15, while rounding \<open>0.125 * 127 = 15.875\<close> to the nearest integer gives 16.
\<close>

theorem tx_callback_white_counterexample:
  "tx_callback oor_wrap NTSC_IreToAmplitude [100] [0, 0] 0 = Some ([15, 0], 0) \<and>
   spec_i8 (NTSC_IreToAmplitude 100) = 16"
  by (simp add: tx_callback_def tx_body_def store_def NTSC_IreToAmplitude_def
      go_int_def go_int8_def spec_i8_def round_def)

section \<open>NTSC sync geometry\<close>

lemma NewNTSC_8e6:
  "\<exists>n. NewNTSC 8000000 = Some n \<and> lineSamples n = 508 \<and> eqPulseSamples n = 18 \<and>
     linesPerFrame n = 525 \<and> levelSync n = - 40 \<and> levelBlanking n = 0"
  by (simp add: NewNTSC_def make_slice_def go_int_def FrameWidth_def FrameHeight_def)

lemma NTSC_generateLumaLine_eq_line:
  assumes N: "0 \<le> lineSamples n"
    and fits: "go_div (lineSamples n) 2 + eqPulseSamples n \<le> lineSamples n"
    and lf: "(let lf = (if L > go_div (linesPerFrame n) 2
                       then L - go_div (linesPerFrame n) 2 else L)
             in (1 \<le> lf \<and> lf \<le> 3) \<or> (7 \<le> lf \<and> lf \<le> 9))"
  shows "\<exists>lb. NTSC_generateLumaLine n L = Some lb \<and> length lb = nat (lineSamples n) \<and>
          (\<forall>j<nat (lineSamples n). lb ! j =
             (if j < nat (eqPulseSamples n)
                 \<or> (nat (go_div (lineSamples n) 2) \<le> j
                     \<and> j < nat (go_div (lineSamples n) 2) + nat (eqPulseSamples n))
              then levelSync n else levelBlanking n))"
proof -
  let ?N = "nat (lineSamples n)"
  let ?half = "go_div (lineSamples n) 2"
  have half: "0 \<le> ?half" using N by (simp add: go_div_nonneg)
  have mk: "make_slice (0::real) (lineSamples n) = Some (replicate ?N 0)"
    using N by (simp add: make_slice_def)
  have "?half \<le> lineSamples n" using N by (simp add: go_div_nonneg)
  then have "nat ?half + nat (eqPulseSamples n) \<le> length (replicate ?N (levelBlanking n))"
    using fits half N by simp
  from sync_pair_loop [OF half this, of "levelSync n"]
  obtain lb where lb: "for_loop [0..<nat (eqPulseSamples n)] (sync_pair (levelSync n) ?half)
        (replicate ?N (levelBlanking n)) = Some lb"
    "length lb = ?N"
    "\<forall>j<?N. lb ! j = (if j < nat (eqPulseSamples n)
                 \<or> (nat ?half \<le> j \<and> j < nat ?half + nat (eqPulseSamples n))
              then levelSync n else levelBlanking n)"
    by auto
  have "NTSC_generateLumaLine n L = Some lb"
    using lf lb(1) unfolding NTSC_generateLumaLine_def
    by (simp add: Let_def mk blank_line)
  then show ?thesis using lb(2,3) by blast
qed

text \<open>
  Claim C7. At \<open>sampleRate = 8e6\<close> the constructor derives \<open>lineSamples = 508\<close>, and
  line 3 of the synthesizer, whatever the RGB frame, is \<open>levelSync\<close> on the sample
  indices \<open>[0, 18)\<close> and \<open>[254, 272)\<close> and \<open>levelBlanking\<close> on every other index
  (exactly, so also within one sample of each boundary).
\<close>

theorem NTSC_line3_sync_geometry:
  "\<exists>n. NewNTSC 8000000 = Some n \<and> lineSamples n = 508 \<and>
     (\<forall>raw. \<exists>lb. NTSC_generateLumaLine (n\<lparr>rawFrameBuffer := raw\<rparr>) 3 = Some lb \<and>
        length lb = 508 \<and>
        (\<forall>j<508. lb ! j = (if j < 18 \<or> (254 \<le> j \<and> j < 272)
                             then levelSync n else levelBlanking n)))"
proof -
  obtain n where n: "NewNTSC 8000000 = Some n" "lineSamples n = 508" "eqPulseSamples n = 18"
     "linesPerFrame n = 525" "levelSync n = - 40" "levelBlanking n = 0"
    using NewNTSC_8e6 by blast
  have "\<exists>lb. NTSC_generateLumaLine (n\<lparr>rawFrameBuffer := raw\<rparr>) 3 = Some lb \<and>
        length lb = 508 \<and>
        (\<forall>j<508. lb ! j = (if j < 18 \<or> (254 \<le> j \<and> j < 272)
                             then levelSync n else levelBlanking n))" for raw
  proof -
    from NTSC_generateLumaLine_eq_line [of "n\<lparr>rawFrameBuffer := raw\<rparr>" 3]
    obtain lb where "NTSC_generateLumaLine (n\<lparr>rawFrameBuffer := raw\<rparr>) 3 = Some lb"
      "length lb = 508"
      "\<forall>j<508. lb ! j = (if j < 18 \<or> (254 \<le> j \<and> j < 272) then levelSync n else levelBlanking n)"
      by (auto simp: n go_div_def)
    then show ?thesis by blast
  qed
  with n show ?thesis by blast
qed

theorem NTSC_line3_sync_geometry_witness:
  "\<exists>n lb. NewNTSC 8000000 = Some n \<and> NTSC_generateLumaLine n 3 = Some lb \<and>
     lb ! 17 = - 40 \<and> lb ! 18 = 0 \<and> lb ! 253 = 0 \<and> lb ! 254 = - 40 \<and> lb ! 271 = - 40 \<and>
     lb ! 272 = 0 \<and> lb ! 507 = 0"
proof -
  from NTSC_line3_sync_geometry obtain n where
    n: "NewNTSC 8000000 = Some n"
    and g: "\<forall>raw. \<exists>lb. NTSC_generateLumaLine (n\<lparr>rawFrameBuffer := raw\<rparr>) 3 = Some lb \<and>
        length lb = 508 \<and>
        (\<forall>j<508. lb ! j = (if j < 18 \<or> (254 \<le> j \<and> j < 272)
                             then levelSync n else levelBlanking n))"
    by blast
  have lv: "levelSync n = - 40" "levelBlanking n = 0"
    using n by (auto simp: NewNTSC_def make_slice_def Let_def split: if_splits)
  from g [rule_format, of "rawFrameBuffer n"] obtain lb where
    lb: "NTSC_generateLumaLine n 3 = Some lb"
    and v: "\<forall>j<508. lb ! j = (if j < 18 \<or> (254 \<le> j \<and> j < 272)
                             then levelSync n else levelBlanking n)"
    by auto
  have "lb ! 17 = - 40" "lb ! 18 = 0" "lb ! 253 = 0" "lb ! 254 = - 40" "lb ! 271 = - 40"
     "lb ! 272 = 0" "lb ! 507 = 0"
    using v lv by simp_all
  with n lb show ?thesis by blast
qed

section \<open>PAL sync pulses\<close>








section \<open>Decoder: invariants of the sample loop\<close>











lemma sample_step_cases:
  "sample_step nanb st bl lc mag d =
     (if commits st mag d then Some ((sync_pulse d)\<lparr>pixelCounter := 0\<rparr>)
      else video_and_flywheel nanb bl lc mag
             (d\<lparr>pixelCounter :=
                  (if d_x d < syncSearchWindow d
                   then (if mag \<ge> st then pixelCounter d + 1 else 0)
                   else pixelCounter d)\<rparr>))"
  by (simp add: sample_step_def commits_def)

lemma clamp_min_max:
  fixes r lo hi :: real
  shows "(if (if r < lo then lo else r) > hi then hi else (if r < lo then lo else r))
           = min hi (max lo r)"
  by (simp add: min_def max_def)



lemma sync_pulse_pll_update:
  assumes s: "vSyncState d = StateSearchVSync"
    and c: "\<not> (d_y d > FrameHeight - 20 \<and> pixelCounter d > hSyncPulseWidth d * 2)"
  shows "sync_pulse d =
     d\<lparr>hSyncErrorAccumulator :=
          hSyncErrorAccumulator d + (real_of_int (d_x d) - samplesPerLine d) * 0.0001,
       samplesPerLine :=
          min (initialSamplesPerLine d * 1.05)
            (max (initialSamplesPerLine d * 0.95)
               (samplesPerLine d
                 + ((real_of_int (d_x d) - samplesPerLine d) * 0.002
                    + (hSyncErrorAccumulator d
                       + (real_of_int (d_x d) - samplesPerLine d) * 0.0001)))),
       d_y := d_y d + 1, d_x := 0\<rparr>"
proof -
  have c': "(d_y d > FrameHeight - 20 \<and> pixelCounter d > hSyncPulseWidth d * 2) = False"
    using c by blast
  show ?thesis
    unfolding sync_pulse_def Let_def clamp_min_max
    by (simp only: s c' VSyncState.case if_False)
qed













section \<open>Decoder: the H-sync PLL\<close>




text \<open>
  Claim C3. In state \<open>SearchVSync\<close>, a committed pulse at position \<open>x\<close> that does not
  start a V-sync (\<open>y \<le> H - 20\<close>, or the pulse is not long) updates the PLL as
  \<open>error = x - samplesPerLine\<close>, \<open>hSyncErrorAccumulator += error * 1e-4\<close>,
  \<open>samplesPerLine += error * 2e-3 + hSyncErrorAccumulator\<close>, clamps \<open>samplesPerLine\<close> to
  \<open>[0.95, 1.05] * initialSamplesPerLine\<close>, increments \<open>y\<close> and resets \<open>x\<close> to 0.
\<close>

theorem pll_update_on_committed_pulse:
  assumes "d_x d < syncSearchWindow d" and "mag < syncThreshold"
    and "pixelCounter d > go_div (hSyncPulseWidth d) 2"
    and "vSyncState d = StateSearchVSync"
    and "d_y d \<le> FrameHeight - 20 \<or> \<not> pixelCounter d > hSyncPulseWidth d * 2"
  shows "(let error = real_of_int (d_x d) - samplesPerLine d;
              acc = hSyncErrorAccumulator d + error * 0.0001;
              spl = samplesPerLine d + (error * 0.002 + acc)
          in sample_step nanb syncThreshold blackLevel levelCoeff mag d =
               Some (d\<lparr>hSyncErrorAccumulator := acc,
                       samplesPerLine := min (initialSamplesPerLine d * 1.05)
                                           (max (initialSamplesPerLine d * 0.95) spl),
                       d_y := d_y d + 1, d_x := 0, pixelCounter := 0\<rparr>))"
proof -
  have c: "commits syncThreshold mag d"
    using assms(1-3) by (simp add: commits_def)
  have n: "\<not> (d_y d > FrameHeight - 20 \<and> pixelCounter d > hSyncPulseWidth d * 2)"
    using assms(5) by auto
  show ?thesis
    unfolding Let_def sample_step_cases
    by (simp only: c if_True sync_pulse_pll_update [OF assms(4) n])
qed

theorem pll_update_on_committed_pulse_witness:
  "d_x ((New 1500000)\<lparr>d_x := 5, pixelCounter := 4\<rparr>)
     < syncSearchWindow ((New 1500000)\<lparr>d_x := 5, pixelCounter := 4\<rparr>) \<and>
   (0::real) < 96 \<and>
   pixelCounter ((New 1500000)\<lparr>d_x := 5, pixelCounter := 4\<rparr>)
     > go_div (hSyncPulseWidth ((New 1500000)\<lparr>d_x := 5, pixelCounter := 4\<rparr>)) 2 \<and>
   vSyncState ((New 1500000)\<lparr>d_x := 5, pixelCounter := 4\<rparr>) = StateSearchVSync \<and>
   d_y ((New 1500000)\<lparr>d_x := 5, pixelCounter := 4\<rparr>) \<le> FrameHeight - 20 \<and>
   (\<exists>d'. sample_step 0 96 83.2 None 0 ((New 1500000)\<lparr>d_x := 5, pixelCounter := 4\<rparr>) = Some d' \<and>
      d_x d' = 0 \<and> d_y d' = 1 \<and> pixelCounter d' = 0 \<and>
      hSyncErrorAccumulator d' = - 271 / 30000 \<and>
      samplesPerLine d' = 2854309 / 30000)"
proof -
  let ?d = "(New 1500000)\<lparr>d_x := 5, pixelCounter := 4\<rparr>"
  have f: "d_x ?d = 5" "pixelCounter ?d = 4" "d_y ?d = 0" "vSyncState ?d = StateSearchVSync"
    "syncSearchWindow ?d = 19" "hSyncPulseWidth ?d = 7"
    "samplesPerLine ?d = 286 / 3" "initialSamplesPerLine ?d = 286 / 3"
    "hSyncErrorAccumulator ?d = 0"
    by (simp_all add: New_def Let_def FrameRate_def LinesPerFrame_def
        HsyncDurationMicroseconds_def go_int_def)
  have h1: "d_x ?d < syncSearchWindow ?d" and h2: "(0::real) < 96"
    and h3: "pixelCounter ?d > go_div (hSyncPulseWidth ?d) 2"
    and h4: "vSyncState ?d = StateSearchVSync"
    and h5: "d_y ?d \<le> FrameHeight - 20"
    unfolding f by (simp_all add: go_div_def FrameHeight_def)
  have h5': "d_y ?d \<le> FrameHeight - 20 \<or> \<not> pixelCounter ?d > hSyncPulseWidth ?d * 2"
    using h5 by blast
  from pll_update_on_committed_pulse [OF h1 h2 h3 h4 h5', of 0 "83.2" None]
  have "\<exists>d'. sample_step 0 96 83.2 None 0 ?d = Some d' \<and>
      d_x d' = 0 \<and> d_y d' = 1 \<and> pixelCounter d' = 0 \<and>
      hSyncErrorAccumulator d' = - 271 / 30000 \<and>
      samplesPerLine d' = 2854309 / 30000"
    unfolding Let_def f by simp
  with h1 h2 h3 h4 h5 show ?thesis by blast
qed





section \<open>Decoder: raster and frames\<close>









section \<open>Decoder: the V-sync state machine\<close>





section \<open>NTSC: the range of the composite signal\<close>

lemma cs_bound:
  fixes A B c s M :: real
  assumes unit: "c\<^sup>2 + s\<^sup>2 = 1" and le: "A\<^sup>2 + B\<^sup>2 \<le> M\<^sup>2" and M: "0 \<le> M"
  shows "\<bar>A * c + B * s\<bar> \<le> M"
proof -
  have "(A * c + B * s)\<^sup>2 + (A * s - B * c)\<^sup>2 = (A\<^sup>2 + B\<^sup>2) * (c\<^sup>2 + s\<^sup>2)"
    by (simp add: power2_eq_square algebra_simps)
  then have "(A * c + B * s)\<^sup>2 + (A * s - B * c)\<^sup>2 = A\<^sup>2 + B\<^sup>2"
    using unit by simp
  moreover have "0 \<le> (A * s - B * c)\<^sup>2" by simp
  ultimately have "(A * c + B * s)\<^sup>2 \<le> M\<^sup>2" using le by linarith
  then have "\<bar>A * c + B * s\<bar> \<le> \<bar>M\<bar>" by (simp only: abs_le_square_iff)
  then show ?thesis using M by simp
qed

lemma scaled_le:
  fixes x a :: real
  assumes "0 \<le> x" "x \<le> 255"
  shows "x * a \<le> 255 * max 0 a" and "255 * min 0 a \<le> x * a"
proof -
  show "x * a \<le> 255 * max 0 a"
  proof (cases "0 \<le> a")
    case True
    then have "x * a \<le> 255 * a" using assms by (intro mult_right_mono) simp_all
    then show ?thesis using True by (simp add: max_def)
  next
    case False
    then have "x * a \<le> 0" using assms by (simp add: mult_nonneg_nonpos)
    then show ?thesis using False by (simp add: max_def)
  qed
  show "255 * min 0 a \<le> x * a"
  proof (cases "0 \<le> a")
    case True
    then have "0 \<le> x * a" using assms by simp
    then show ?thesis using True by (simp add: min_def)
  next
    case False
    then have "255 * a \<le> x * a" using assms by (intro mult_right_mono_neg) simp_all
    then show ?thesis using False by (simp add: min_def)
  qed
qed

lemma sum3_le:
  fixes p1 p2 p3 m1 m2 m3 :: real
  assumes "p1 \<le> 255 * m1" "p2 \<le> 255 * m2" "p3 \<le> 255 * m3"
  shows "p1 + p2 + p3 \<le> 255 * (m1 + m2 + m3)"
  using assms by simp

lemma sum3_ge:
  fixes p1 p2 p3 m1 m2 m3 :: real
  assumes "255 * m1 \<le> p1" "255 * m2 \<le> p2" "255 * m3 \<le> p3"
  shows "255 * (m1 + m2 + m3) \<le> p1 + p2 + p3"
  using assms by simp

lemma composite_bound:
  fixes r g b c s :: real
  assumes r: "0 \<le> r" "r \<le> 255" and g: "0 \<le> g" "g \<le> 255" and b: "0 \<le> b" "b \<le> 255"
    and unit: "c\<^sup>2 + s\<^sup>2 = 1"
  defines "v \<equiv> 7.5 + (0.299 * r + 0.587 * g + 0.114 * b) / 255 * (100 - 7.5)
              + ((0.596 * r - 0.274 * g - 0.322 * b) / 255 * (100 - 7.5) * c
                 + (0.211 * r - 0.523 * g + 0.312 * b) / 255 * (100 - 7.5) * s)"
  shows "7.5 - 31 \<le> v" and "v \<le> 100 + 31"
proof -
  define Ar where "Ar = 0.299 + (0.596 * c + 0.211 * s)"
  define Ag where "Ag = 0.587 + ((- 0.274) * c + (- 0.523) * s)"
  define Ab where "Ab = 0.114 + ((- 0.322) * c + 0.312 * s)"
  have v: "v = 7.5 + 92.5 / 255 * (r * Ar + g * Ag + b * Ab)"
    unfolding v_def Ar_def Ag_def Ab_def by (simp add: field_simps)
  have R: "\<bar>0.596 * c + 0.211 * s\<bar> \<le> 0.634"
    by (rule cs_bound [OF unit]) (simp_all add: power2_eq_square)
  have G: "\<bar>(- 0.274) * c + (- 0.523) * s\<bar> \<le> 0.591"
    by (rule cs_bound [OF unit]) (simp_all add: power2_eq_square)
  have B: "\<bar>(- 0.322) * c + 0.312 * s\<bar> \<le> 0.449"
    by (rule cs_bound [OF unit]) (simp_all add: power2_eq_square)
  have RG: "\<bar>0.322 * c + (- 0.312) * s\<bar> \<le> 0.449"
    by (rule cs_bound [OF unit]) (simp_all add: power2_eq_square)
  have RB: "\<bar>0.274 * c + 0.523 * s\<bar> \<le> 0.591"
    by (rule cs_bound [OF unit]) (simp_all add: power2_eq_square)
  have GB: "\<bar>(- 0.596) * c + (- 0.211) * s\<bar> \<le> 0.634"
    by (rule cs_bound [OF unit]) (simp_all add: power2_eq_square)
  have sums: "Ar + Ag = 0.886 + (0.322 * c + (- 0.312) * s)"
    "Ar + Ab = 0.413 + (0.274 * c + 0.523 * s)"
    "Ag + Ab = 0.701 + ((- 0.596) * c + (- 0.211) * s)"
    "Ar + Ag + Ab = 1"
    unfolding Ar_def Ag_def Ab_def by (simp_all add: algebra_simps)
  have up: "max 0 Ar + max 0 Ag + max 0 Ab \<le> 1.335"
    using R G B RG RB GB sums unfolding Ar_def Ag_def Ab_def max_def
    by (auto simp: abs_le_iff) 
  have lo: "- 0.335 \<le> min 0 Ar + min 0 Ag + min 0 Ab"
    using R G B RG RB GB sums unfolding Ar_def Ag_def Ab_def min_def
    by (auto simp: abs_le_iff)
  define P where "P = r * Ar + g * Ag + b * Ab"
  have vP: "v = 7.5 + 92.5 / 255 * P" unfolding v P_def ..
  have "P \<le> 255 * (max 0 Ar + max 0 Ag + max 0 Ab)"
    unfolding P_def
    by (rule sum3_le [OF scaled_le(1) [OF r] scaled_le(1) [OF g] scaled_le(1) [OF b]])
  also have "\<dots> \<le> 255 * 1.335"
    using up by (intro mult_left_mono) simp_all
  finally have "P \<le> 255 * 1.335" .
  then show "v \<le> 100 + 31" unfolding vP by simp
  have "255 * (min 0 Ar + min 0 Ag + min 0 Ab) \<le> P"
    unfolding P_def
    by (rule sum3_ge [OF scaled_le(2) [OF r] scaled_le(2) [OF g] scaled_le(2) [OF b]])
  moreover have "255 * (- 0.335) \<le> 255 * (min 0 Ar + min 0 Ag + min 0 Ab)"
    using lo by (intro mult_left_mono) simp_all
  ultimately have "255 * (- 0.335) \<le> P" by (rule order_trans [rotated])
  then show "7.5 - 31 \<le> v" unfolding vP by simp
qed

lemma NewNTSC_geometry:
  assumes sr: "0 \<le> sr" and n: "NewNTSC sr = Some n"
  shows "levelSync n = - 40" "levelBlanking n = 0" "levelBlack n = 7.5"
    "levelWhite n = 100" "burstAmplitude n = 20" "linesPerFrame n = 525"
    "length (rawFrameBuffer n) = 777600"
    "length (ntscFrameBuffer n) = nat (lineSamples n) * 525"
    "0 \<le> lineSamples n" "0 \<le> hSyncSamples n" "hSyncSamples n \<le> lineSamples n"
    "go_div (lineSamples n) 2 + eqPulseSamples n \<le> lineSamples n"
    "go_div (lineSamples n) 2 + vSyncPulseSamples n \<le> lineSamples n"
    "0 \<le> activeStartSamples n" "0 \<le> activeSamples n"
    "activeStartSamples n + activeSamples n \<le> lineSamples n"
    "burstEndSamples n \<le> activeStartSamples n"
    "NTSC.sampleRate n = sr" "fsc n = 3579545.4545"
proof -
  let ?X = "1 / (30000 / 1001 * 525) * sr"
  note defs = NewNTSC_def make_slice_def Let_def FrameWidth_def FrameHeight_def
  have X: "0 \<le> ?X" using sr by simp
  have ls: "lineSamples n = go_int ?X"
    and hs: "hSyncSamples n = go_int (4.7 / 10 ^ 6 * sr)"
    and vs: "vSyncPulseSamples n = go_int (27.1 / 10 ^ 6 * sr)"
    and es: "eqPulseSamples n = go_int (2.3 / 10 ^ 6 * sr)"
    and be: "burstEndSamples n = go_int (5.6 / 10 ^ 6 * sr) + go_int (2.5 / 10 ^ 6 * sr)"
    and as: "activeStartSamples n = go_int (10.7 / 10 ^ 6 * sr)"
    and ac: "activeSamples n = go_int (52.6 / 10 ^ 6 * sr)"
    using n by (auto simp: defs mult.commute split: if_splits)
  show "levelSync n = - 40" "levelBlanking n = 0" "levelBlack n = 7.5"
    "levelWhite n = 100" "burstAmplitude n = 20" "linesPerFrame n = 525"
    "length (rawFrameBuffer n) = 777600" "NTSC.sampleRate n = sr" "fsc n = 3579545.4545"
    using n by (auto simp: defs mult.commute split: if_splits)
  have fl: "length (ntscFrameBuffer n) = nat (lineSamples n * 525)"
    using n by (auto simp: defs mult.commute split: if_splits)
  show N: "0 \<le> lineSamples n" and "0 \<le> hSyncSamples n"
    and "0 \<le> activeStartSamples n" and "0 \<le> activeSamples n"
    using sr by (simp_all add: ls hs as ac go_int_def)
  show "length (ntscFrameBuffer n) = nat (lineSamples n) * 525"
    using N by (simp add: fl nat_mult_distrib)
  show "hSyncSamples n \<le> lineSamples n"
    unfolding hs ls using sr by (intro go_int_mono_nonneg) (simp_all add: field_simps)
  show "activeStartSamples n + activeSamples n \<le> lineSamples n"
    unfolding ls as ac using sr by (intro go_int_add_le) (simp_all add: field_simps)
  show "burstEndSamples n \<le> activeStartSamples n"
    unfolding be as using sr by (intro go_int_add_le) (simp_all add: field_simps)
  \<comment> \<open>the V-sync pulse fits into the second half-line\<close>
  define m where "m = \<lfloor>?X\<rfloor>"
  have m: "0 \<le> m" "lineSamples n = m" using X by (simp_all add: m_def ls go_int_def)
  have half: "go_div m 2 = m div 2"
    using m(1) by (simp add: go_div_nonneg)
  have "?X < real_of_int m + 1" unfolding m_def by linarith
  moreover have "27.1 / 10 ^ 6 * sr \<le> 0.43 * ?X" using sr by (simp add: field_simps)
  ultimately have "27.1 / 10 ^ 6 * sr \<le> real_of_int (m + 1) / real_of_int 2"
    using m(1) by simp
  then have "\<lfloor>27.1 / 10 ^ 6 * sr\<rfloor> \<le> \<lfloor>real_of_int (m + 1) / real_of_int 2\<rfloor>"
    by (rule floor_mono)
  also have "\<dots> = (m + 1) div 2" by (rule floor_divide_of_int_eq)
  finally have v: "vSyncPulseSamples n \<le> (m + 1) div 2"
    using sr by (simp add: vs go_int_def)
  show "go_div (lineSamples n) 2 + vSyncPulseSamples n \<le> lineSamples n"
    unfolding m(2) half using v by linarith
  have "eqPulseSamples n \<le> vSyncPulseSamples n"
    unfolding es vs using sr by (intro go_int_mono_nonneg) (simp_all add: field_simps)
  then show "go_div (lineSamples n) 2 + eqPulseSamples n \<le> lineSamples n"
    unfolding m(2) half using v by linarith
qed

lemma NTSC_getPixelYIQ_bound:
  assumes raw: "length (rawFrameBuffer n) = 777600"
    and ac: "activeSamples n \<noteq> 0"
    and lv: "levelBlack n = 7.5" "levelWhite n = 100"
  shows "case NTSC_getPixelYIQ n L x of
           None \<Rightarrow> False
         | Some (y, i, q) \<Rightarrow>
             7.5 \<le> y \<and> y \<le> 100 \<and>
             (\<forall>c s. c\<^sup>2 + s\<^sup>2 = 1 \<longrightarrow> 7.5 - 31 \<le> y + (i * c + q * s) \<and> y + (i * c + q * s) \<le> 100 + 31)"
proof -
  have ld: "loadi (rawFrameBuffer n) k = Some (rawFrameBuffer n ! nat k)"
    if "0 \<le> k" "k < 777600" for k
    using that raw by (simp add: loadi_def)
  define px where "px = go_int (real_of_int (x - activeStartSamples n)
                           / real_of_int (activeSamples n) * real_of_int FrameWidth)"
  define vl where "vl = (if L \<ge> 22 \<and> L \<le> 263 then (L - 22) * 2
             else if L \<ge> 285 \<and> L \<le> 525 then (L - 285) * 2 + 1
             else 0)"
  show ?thesis
  proof (cases "vl < 0 \<or> vl \<ge> 480 \<or> px < 0 \<or> px \<ge> 540")
    case True
    then show ?thesis
      unfolding NTSC_getPixelYIQ_def Let_def px_def [symmetric] vl_def [symmetric]
      using ac lv by (simp add: FrameWidth_def FrameHeight_def)
  next
    case False
    then have b: "0 \<le> vl" "vl < 480" "0 \<le> px" "px < 540"
      by auto
    define r where "r = (unsigned (rawFrameBuffer n ! nat ((vl * 540 + px) * 3)) :: real)"
    define g where "g = (unsigned (rawFrameBuffer n ! nat ((vl * 540 + px) * 3 + 1)) :: real)"
    define bl where "bl = (unsigned (rawFrameBuffer n ! nat ((vl * 540 + px) * 3 + 2)) :: real)"
    have rng: "0 \<le> r" "r \<le> 255" "0 \<le> g" "g \<le> 255" "0 \<le> bl" "bl \<le> 255"
      unfolding r_def g_def bl_def by (simp_all add: byte_real_nonneg byte_real_le)
    define Yv where "Yv = (0.299 * r + 0.587 * g + 0.114 * bl) / 255 * (100 - 7.5)"
    define Iv where "Iv = (0.596 * r - 0.274 * g - 0.322 * bl) / 255 * (100 - 7.5)"
    define Qv where "Qv = (0.211 * r - 0.523 * g + 0.312 * bl) / 255 * (100 - 7.5)"
    have res: "NTSC_getPixelYIQ n L x = Some (7.5 + Yv, Iv, Qv)"
      unfolding NTSC_getPixelYIQ_def Let_def px_def [symmetric] vl_def [symmetric] lv
        Yv_def Iv_def Qv_def
      using ac b
      by (simp add: FrameWidth_def FrameHeight_def ld r_def g_def bl_def)
    have cb: "7.5 - 31 \<le> 7.5 + Yv + (Iv * c + Qv * s) \<and> 7.5 + Yv + (Iv * c + Qv * s) \<le> 100 + 31"
      if "c\<^sup>2 + s\<^sup>2 = 1" for c s :: real
      unfolding Yv_def Iv_def Qv_def using composite_bound [OF rng that] by blast
    have y0: "0 \<le> Yv"
      unfolding Yv_def using rng
      by (intro mult_nonneg_nonneg divide_nonneg_nonneg add_nonneg_nonneg) simp_all
    have "0.299 * r + 0.587 * g + 0.114 * bl \<le> 255"
      using rng by (simp; linarith)
    then have y1: "Yv \<le> 100 - 7.5"
      unfolding Yv_def by simp
    have a1: "7.5 \<le> 7.5 + Yv" using y0 by simp
    have a2: "7.5 + Yv \<le> 100" using y1 by simp
    show ?thesis
      unfolding res using a1 a2 cb by (simp only: option.case prod.case) blast
  qed
qed

lemma NTSC_getPixelYIQ_Some:
  assumes raw: "length (rawFrameBuffer n) = 777600"
    and ac: "activeSamples n \<noteq> 0"
    and lv: "levelBlack n = 7.5" "levelWhite n = 100"
  shows "\<exists>y i q. NTSC_getPixelYIQ n L x = Some (y, i, q)"
  using NTSC_getPixelYIQ_bound [OF assms, of L x]
  by (cases "NTSC_getPixelYIQ n L x") auto

lemma NTSC_luma_loop:
  assumes raw: "length (rawFrameBuffer n) = 777600"
    and lv: "levelBlack n = 7.5" "levelWhite n = 100"
    and st: "0 \<le> activeStartSamples n"
    and fits: "activeStartSamples n + activeSamples n \<le> int (length lb)"
  shows "\<exists>lb'. for_loop [0..<nat (activeSamples n)] (NTSC_luma_body n L) lb = Some lb' \<and>
           length lb' = length lb \<and>
           (\<forall>j<length lb.
              lb' ! j =
                (if nat (activeStartSamples n) \<le> j
                   \<and> j < nat (activeStartSamples n) + nat (activeSamples n)
                 then fst (the (NTSC_getPixelYIQ n L (int j))) else lb ! j))"
proof -
  let ?a = "nat (activeStartSamples n)"
  let ?I = "\<lambda>i l. length l = length lb \<and>
              (\<forall>j<length lb. l ! j =
                 (if ?a \<le> j \<and> j < ?a + i
                  then fst (the (NTSC_getPixelYIQ n L (int j))) else lb ! j))"
  have "\<exists>s'. for_loop [0..<nat (activeSamples n)] (NTSC_luma_body n L) lb = Some s'
          \<and> ?I (nat (activeSamples n)) s'"
  proof (rule for_loop_invariant [where I = ?I])
    show "?I 0 lb" by simp
    show "0 \<le> nat (activeSamples n)" by simp
    fix i t assume a: "0 \<le> i" "i < nat (activeSamples n)" "?I i t"
    then have "activeSamples n \<noteq> 0" by auto
    from NTSC_getPixelYIQ_Some [OF raw this lv, of L "activeStartSamples n + int i"]
    obtain y u v where
      px: "NTSC_getPixelYIQ n L (activeStartSamples n + int i) = Some (y, u, v)"
      by blast
    have idx: "activeStartSamples n + int i = int (?a + i)" using st by simp
    have inb: "?a + i < length t" using a fits st by auto
    have "NTSC_luma_body n L i t = Some (t[?a + i := y])"
      using px inb st by (simp add: NTSC_luma_body_def storei_def nat_add_distrib)
    moreover have "?I (Suc i) (t[?a + i := y])"
      using a px inb unfolding idx by (auto simp: nth_list_update less_Suc_eq)
    ultimately show "\<exists>t'. NTSC_luma_body n L i t = Some t' \<and> ?I (Suc i) t'" by blast
  qed
  then show ?thesis by blast
qed

lemma copy_at_nth:
  assumes off: "off + length src \<le> length dst"
  shows "\<exists>dst'. copy_at dst (int off) src = Some dst' \<and> length dst' = length dst \<and>
           (\<forall>m<length dst. dst' ! m =
              (if off \<le> m \<and> m < off + length src then src ! (m - off) else dst ! m))"
proof -
  let ?d = "take off dst @ take (length dst - off) src @ drop (off + length src) dst"
  have t: "take (length dst - off) src = src" using off by simp
  have c: "copy_at dst (int off) src = Some ?d"
    using off by (simp add: copy_at_def)
  have len: "length ?d = length dst" using off by (simp add: t)
  have "?d ! m = (if off \<le> m \<and> m < off + length src then src ! (m - off) else dst ! m)"
    if "m < length dst" for m
    using that off unfolding t by (auto simp: nth_append)
  with c len show ?thesis by blast
qed

end
